theory Spec2Isabelle
  imports Main "HOL-Library.Word"
begin

section \<open>The connection sniffer of modules/listener/listener.go\<close>

text \<open>
  The theory embeds the wrapped listener of \<^verbatim>\<open>modules/listener/listener.go\<close>:
  the per-connection unit of work started by \<^verbatim>\<open>Listener.loop\<close> (the byte-by-byte
  header scan, the credential check, the hand-over to the fallback queue or to the
  relay), and the exposed \<^verbatim>\<open>Accept\<close> and \<^verbatim>\<open>Close\<close>.
  Everything the unit does to the outside (logging, closing the connection, sending on
  the channel, calling the relay, reporting usage) is recorded, in order, as a trace of
  events.
\<close>

subsection \<open>Bytes, connections and read results\<close>

type_synonym byte = "8 word"

text \<open>
  The error of a \<^verbatim>\<open>Read\<close>. The source only asks \<^verbatim>\<open>errors.Is(err, io.EOF)\<close>,
  so two cases are enough.
\<close>

datatype read_error = EOF | NotEOF

text \<open>
  What one call \<^verbatim>\<open>c.Read(b[n : n+1])\<close> returns. The slice holds one byte, so
  \<^verbatim>\<open>nr\<close> is 0 or 1: \<open>got = Some x\<close> stands for \<^verbatim>\<open>nr = 1\<close> with \<open>x\<close> stored
  in \<^verbatim>\<open>b[n]\<close>, \<open>got = None\<close> for \<^verbatim>\<open>nr = 0\<close> with \<^verbatim>\<open>b[n]\<close> left as it was.
  Go allows every combination of the two fields.
\<close>

datatype read_result = ReadResult (got: "byte option") (err: "read_error option")

text \<open>
  A connection is the list of results its successive one-byte reads return. Once the
  list is used up the peer has closed the stream: a further read returns
  \<^verbatim>\<open>(0, io.EOF)\<close>.
\<close>

type_synonym conn = "read_result list"

fun conn_Read :: "conn \<Rightarrow> read_result \<times> conn" where
  "conn_Read [] = (ReadResult None (Some EOF), [])"
| "conn_Read (r # c) = (r, c)"

text \<open>The bytes a connection hands over, in order.\<close>

fun conn_bytes :: "conn \<Rightarrow> byte list" where
  "conn_bytes [] = []"
| "conn_bytes (r # c) = (case got r of None \<Rightarrow> conn_bytes c | Some x \<Rightarrow> x # conn_bytes c)"

text \<open>A well-behaved connection: every read hands over the next byte, with no error.\<close>

definition deliver :: "byte list \<Rightarrow> conn" where
  "deliver bs = map (\<lambda>x. ReadResult (Some x) None) bs"

subsection \<open>The rewound connection\<close>

text \<open>
  Modelled from the spec: \<^verbatim>\<open>rawconn.RewindConn\<close> (package \<^verbatim>\<open>pkgs/rawconn\<close> is not
  among the sources). The spec's RewindableStream is built from an underlying stream
  and a byte sequence already read from it; a read first copies from the remaining
  prefix and, once that is exhausted, delegates to the underlying stream.
\<close>

record rewind_conn =
  prefix :: "byte list"
  under :: conn

definition RewindConn :: "conn \<Rightarrow> byte list \<Rightarrow> rewind_conn" where
  "RewindConn c p = \<lparr>prefix = p, under = c\<rparr>"

definition rewind_Read :: "rewind_conn \<Rightarrow> read_result \<times> rewind_conn" where
  "rewind_Read rc =
     (case prefix rc of
        x # p \<Rightarrow> (ReadResult (Some x) None, rc\<lparr>prefix := p\<rparr>)
      | [] \<Rightarrow> (case conn_Read (under rc) of (r, c) \<Rightarrow> (r, rc\<lparr>under := c\<rparr>)))"

text \<open>The bytes the consumer of a rewound connection observes, in order.\<close>

definition rewind_bytes :: "rewind_conn \<Rightarrow> byte list" where
  "rewind_bytes rc = prefix rc @ conn_bytes (under rc)"

subsection \<open>The listener\<close>

text \<open>
  Modelled from the spec: \<^verbatim>\<open>trojan.HeaderLen\<close> (package \<^verbatim>\<open>pkgs/trojan\<close> is not
  among the sources). The spec fixes the key width \<open>L\<close> at 56 hex characters. The
  functions below take the width as their first argument, so every theorem holds for
  any width, this one included.
\<close>

definition HeaderLen :: nat where
  "HeaderLen = 56"

text \<open>
  The embedded \<^verbatim>\<open>net.Listener\<close>: whether it has been closed, and the raw
  connections it has still to hand out.
\<close>

record net_listener =
  nl_closed :: bool
  nl_backlog :: "conn list"

text \<open>
  \<^verbatim>\<open>type Listener struct\<close>. The channel \<^verbatim>\<open>conns\<close> is its queue, oldest first;
  the channel \<^verbatim>\<open>closed\<close> carries no data and is only ever closed, so it is the
  flag "has been closed". \<^verbatim>\<open>Upstream\<close>, \<^verbatim>\<open>Proxy\<close> and \<^verbatim>\<open>Logger\<close> are
  the arguments and the trace of \<open>loop_conn\<close> below.
\<close>

record Listener =
  Verbose :: bool
  netListener :: net_listener
  conns :: "rewind_conn list"
  closed :: bool

definition conns_cap :: nat where
  "conns_cap = 8"

definition NewListener :: "net_listener \<Rightarrow> Listener" where
  "NewListener ln = \<lparr>Verbose = False, netListener = ln, conns = [], closed = False\<rparr>"

text \<open>
  \<^verbatim>\<open>l.conns <- rc\<close> on the buffered channel: the send goes through while the queue
  has room; \<open>None\<close> is a sender that blocks.
\<close>

definition chan_send :: "rewind_conn \<Rightarrow> Listener \<Rightarrow> Listener option" where
  "chan_send rc l =
     (if length (conns l) < conns_cap then Some (l\<lparr>conns := conns l @ [rc]\<rparr>) else None)"

text \<open>
  \<^verbatim>\<open>Listener.Accept\<close> is a \<^verbatim>\<open>select\<close> over two receives and no default. Go picks
  one of the cases that can proceed by a uniform pseudo-random choice, and blocks when
  none can. The model returns the outcomes of all the cases that can proceed, in the
  order of the source; the empty list is a call that blocks.
\<close>

datatype accept_result = ErrClosed | Conn rewind_conn

definition Accept :: "Listener \<Rightarrow> (accept_result \<times> Listener) list" where
  "Accept l =
     (if closed l then [(ErrClosed, l)] else []) @
     (case conns l of [] \<Rightarrow> [] | c # cs \<Rightarrow> [(Conn c, l\<lparr>conns := cs\<rparr>)])"

text \<open>
  \<^verbatim>\<open>Listener.Close\<close>: a \<^verbatim>\<open>select\<close> with a default. The returned error is
  \<open>None\<close> for \<^verbatim>\<open>nil\<close>.
\<close>

definition Close :: "Listener \<Rightarrow> string option \<times> Listener" where
  "Close l = (if closed l then (None, l) else (None, l\<lparr>closed := True\<rparr>))"

subsection \<open>The header scan\<close>

text \<open>
  The \<^verbatim>\<open>for\<close> loop of the unit of work (lines 166 to 192) leaves in one of four ways.
\<close>

datatype scan_result =
    ScanEOF
  | ScanErr "byte list" conn
  | ScanLF "byte list" conn
  | ScanDone "byte list" conn

text \<open>
  \<open>scan hl b n c\<close> is the loop at index \<open>n\<close> with buffer \<open>b\<close> and connection \<open>c\<close>.
  \<open>ScanEOF\<close>: a read failed with end-of-stream. \<open>ScanErr p c'\<close>: a read failed
  otherwise, \<open>p\<close> is \<^verbatim>\<open>b[:n+1]\<close>. \<open>ScanLF p c'\<close>: a line feed before index
  \<open>hl + 1\<close>, \<open>p\<close> is \<^verbatim>\<open>b[:n+1]\<close>. \<open>ScanDone b c'\<close>: the loop ran to its end.
  The \<^verbatim>\<open>continue\<close> of a read of zero bytes runs the loop's \<^verbatim>\<open>n += 1\<close>.
\<close>

function scan :: "nat \<Rightarrow> byte list \<Rightarrow> nat \<Rightarrow> conn \<Rightarrow> scan_result" where
  "scan hl b n c =
     (if n < hl + 2 then
        (case conn_Read c of
           (r, c') \<Rightarrow>
             (let b' = (case got r of None \<Rightarrow> b | Some x \<Rightarrow> b[n := x]) in
              case err r of
                Some e \<Rightarrow> (if e = EOF then ScanEOF else ScanErr (take (n + 1) b') c')
              | None \<Rightarrow>
                  (if got r = None then scan hl b' (n + 1) c'
                   else if b' ! n = 0x0a \<and> n < hl + 1 then ScanLF (take (n + 1) b') c'
                   else scan hl b' (n + 1) c')))
      else ScanDone b c)"
  by pat_completeness auto
termination
  by (relation "measure (\<lambda>(hl, b, n, c). hl + 2 - n)") auto

declare scan.simps [simp del]

subsection \<open>The unit of work of one accepted connection\<close>

datatype log_msg = ReadPrefixEOF | ReadPrefixNotIO | HandleInfo | HandleError

datatype event =
    Log log_msg
  | ConnClose
  | Send rewind_conn
  | Handle conn
  | Consume "byte list" int int

text \<open>
  The result of \<^verbatim>\<open>trojan.HandleWithDialer\<close> on what is left of the connection: the
  two byte counts and the error, \<open>None\<close> for \<^verbatim>\<open>nil\<close>. The relay is not among the
  sources; it is an argument of the unit.
\<close>

type_synonym relay = "conn \<Rightarrow> int \<times> int \<times> string option"

text \<open>
  \<^verbatim>\<open>select { case <-l.closed: c.Close(); default: l.conns <- rawconn.RewindConn(c, p) }\<close>
\<close>

definition close_or_send :: "Listener \<Rightarrow> conn \<Rightarrow> byte list \<Rightarrow> event list" where
  "close_or_send l c p = (if closed l then [ConnClose] else [Send (RewindConn c p)])"

text \<open>
  The function literal that \<^verbatim>\<open>loop\<close> starts for each accepted connection (lines 164
  to 214). \<open>Validate\<close> is \<^verbatim>\<open>up.Validate\<close>, \<open>HandleWithDialer\<close> the relay, \<open>l\<close> the
  listener as the unit finds it when it reaches a \<^verbatim>\<open>select\<close>, \<open>c\<close> the connection.
  The deferred \<^verbatim>\<open>c.Close()\<close> runs last.
\<close>

definition loop_conn ::
  "nat \<Rightarrow> (byte list \<Rightarrow> bool) \<Rightarrow> relay \<Rightarrow> Listener \<Rightarrow> conn \<Rightarrow> event list" where
  "loop_conn hl Validate HandleWithDialer l c =
     (case scan hl (replicate (hl + 2) 0) 0 c of
        ScanEOF \<Rightarrow> [Log ReadPrefixEOF, ConnClose]
      | ScanErr p c' \<Rightarrow> [Log ReadPrefixNotIO, Send (RewindConn c' p)]
      | ScanLF p c' \<Rightarrow> close_or_send l c' p
      | ScanDone b c' \<Rightarrow>
          (if \<not> Validate (take hl b) then close_or_send l c' b
           else
             (if Verbose l then [Log HandleInfo] else []) @
             (case HandleWithDialer c' of
                (nr, nw, e) \<Rightarrow>
                  [Handle c'] @
                  (if e \<noteq> None then [Log HandleError] else []) @
                  [Consume (take hl b) nr nw]) @
             [ConnClose]))"

subsection \<open>Concrete inputs\<close>

text \<open>
  A ledger holding one key (56 times the letter a), a ledger holding none, a relay that
  succeeds and one that fails, a fresh listener, the same listener after
  \<^verbatim>\<open>Close\<close>, and two openings of a stream that is not the proxy protocol: the
  first bytes of an HTTP request line and a run of 58 bytes free of line feeds. Then a
  well-formed request as the relay expects it after the key and its CR LF: connect,
  IPv4, 93.184.216.34, port 80, CR LF.
\<close>

definition demo_key :: "byte list" where
  "demo_key = replicate 56 0x61"

definition only_demo_key :: "byte list \<Rightarrow> bool" where
  "only_demo_key k = (k = demo_key)"

definition reject_all :: "byte list \<Rightarrow> bool" where
  "reject_all k = False"

definition relay_ok :: relay where
  "relay_ok c = (10, 20, None)"

definition relay_fail :: relay where
  "relay_fail c = (0, 0, Some ''decode'')"

definition open_listener :: Listener where
  "open_listener = NewListener \<lparr>nl_closed = False, nl_backlog = []\<rparr>"

definition closed_listener :: Listener where
  "closed_listener = snd (Close open_listener)"

definition http_get :: "byte list" where
  "http_get = [0x47, 0x45, 0x54, 0x20, 0x2f]"

definition tls_hello :: "byte list" where
  "tls_hello = replicate 58 0x16"

definition connect_request :: "byte list" where
  "connect_request = [0x01, 0x01, 93, 184, 216, 34, 0x00, 0x50, 0x0d, 0x0a]"

definition demo_rc :: rewind_conn where
  "demo_rc = RewindConn [] http_get"

definition queued_listener :: Listener where
  "queued_listener = open_listener\<lparr>conns := [demo_rc]\<rparr>"

section \<open>The scan, one read at a time\<close>

lemma scan_step_data:
  "n < hl + 2 \<Longrightarrow> \<not> (x = 0x0a \<and> n < hl + 1) \<Longrightarrow> n < length b \<Longrightarrow>
   scan hl b n (ReadResult (Some x) None # c) = scan hl (b[n := x]) (Suc n) c"
  by (subst scan.simps) (auto simp: Let_def)

lemma scan_step_lf:
  "n < hl + 1 \<Longrightarrow> n < length b \<Longrightarrow>
   scan hl b n (ReadResult (Some 0x0a) None # c) = ScanLF (take n b @ [0x0a]) c"
  by (subst scan.simps) (simp add: Let_def take_Suc_conv_app_nth)

lemma scan_step_empty:
  "n < hl + 2 \<Longrightarrow> scan hl b n (ReadResult None None # c) = scan hl b (Suc n) c"
  by (subst scan.simps) simp

lemma scan_step_eof:
  "n < hl + 2 \<Longrightarrow> scan hl b n (ReadResult g (Some EOF) # c) = ScanEOF"
  by (subst scan.simps) simp

lemma scan_step_end:
  "n < hl + 2 \<Longrightarrow> scan hl b n [] = ScanEOF"
  by (subst scan.simps) simp

lemma scan_step_err:
  "n < hl + 2 \<Longrightarrow> scan hl b n (ReadResult g (Some NotEOF) # c) =
     ScanErr (take (Suc n) (case g of None \<Rightarrow> b | Some x \<Rightarrow> b[n := x])) c"
  by (subst scan.simps) simp

lemma scan_done: "\<not> n < hl + 2 \<Longrightarrow> scan hl b n c = ScanDone b c"
  by (subst scan.simps) simp

text \<open>
  A run of delivered bytes with no early line feed moves the scan forward by its length
  and stores the bytes in the buffer, in place.
\<close>

lemma scan_deliver:
  "length p + length bs \<le> hl + 2 \<Longrightarrow> length bs \<le> length zs \<Longrightarrow>
   0x0a \<notin> set (take (hl + 1 - length p) bs) \<Longrightarrow>
   scan hl (p @ zs) (length p) (deliver bs @ c) =
   scan hl (p @ bs @ drop (length bs) zs) (length p + length bs) c"
proof (induction bs arbitrary: p zs)
  case Nil
  then show ?case by (simp add: deliver_def)
next
  case (Cons x bs)
  obtain z zs' where zs: "zs = z # zs'" using Cons.prems(2) by (cases zs) auto
  have n: "length p < hl + 2" using Cons.prems(1) by simp
  have nolf: "\<not> (x = 0x0a \<and> length p < hl + 1)" using Cons.prems(3)
    by (cases "hl + 1 - length p") auto
  have step: "scan hl (p @ zs) (length p) (deliver (x # bs) @ c) =
        scan hl ((p @ [x]) @ zs') (length (p @ [x])) (deliver bs @ c)"
    using scan_step_data [OF n nolf, of "p @ zs" "deliver bs @ c"] zs
    by (simp add: deliver_def)
  have rest: "0x0a \<notin> set (take (hl + 1 - length (p @ [x])) bs)"
  proof (cases "length p < hl + 1")
    case True
    then have "hl + 1 - length p = Suc (hl + 1 - length (p @ [x]))" by simp
    then show ?thesis using Cons.prems(3) by simp
  next
    case False
    then show ?thesis by simp
  qed
  show ?case
    using Cons.IH [of "p @ [x]" zs'] Cons.prems zs rest step by simp
qed

lemma scan_deliver_full:
  assumes "length bs = hl + 2" "0x0a \<notin> set (take (hl + 1) bs)"
  shows "scan hl (replicate (hl + 2) 0) 0 (deliver bs @ c) = ScanDone bs c"
  using scan_deliver [of "[]" bs hl "replicate (hl + 2) 0" c] assms
  by (simp add: scan_done)

lemma scan_deliver_lf:
  assumes "length p < hl + 1" "0x0a \<notin> set p"
  shows "scan hl (replicate (hl + 2) 0) 0 (deliver (p @ [0x0a]) @ c) = ScanLF (p @ [0x0a]) c"
proof -
  have "scan hl (replicate (hl + 2) 0) 0 (deliver p @ (ReadResult (Some 0x0a) None # c)) =
        scan hl (p @ drop (length p) (replicate (hl + 2) 0)) (length p) (ReadResult (Some 0x0a) None # c)"
    using scan_deliver [of "[]" p hl "replicate (hl + 2) 0"] assms by simp
  moreover have "\<dots> = ScanLF (p @ [0x0a]) c"
    using assms by (subst scan_step_lf) simp_all
  ultimately show ?thesis by (simp add: deliver_def)
qed

lemma scan_deliver_err:
  assumes "length bs < hl + 2" "0x0a \<notin> set bs"
  shows "scan hl (replicate (hl + 2) 0) 0 (deliver bs @ ReadResult None (Some NotEOF) # c) =
         ScanErr (bs @ [0]) c"
proof -
  have "scan hl (replicate (hl + 2) 0) 0 (deliver bs @ ReadResult None (Some NotEOF) # c) =
        scan hl (bs @ drop (length bs) (replicate (hl + 2) 0)) (length bs)
          (ReadResult None (Some NotEOF) # c)"
    using scan_deliver [of "[]" bs hl "replicate (hl + 2) 0"] assms by simp
  moreover have "take (Suc (length bs)) (bs @ drop (length bs) (replicate (hl + 2) 0)) = bs @ [0::byte]"
  proof -
    have "drop (length bs) (replicate (hl + 2) (0::byte)) = 0 # replicate (hl + 1 - length bs) 0"
      using assms(1) by (simp add: Suc_diff_le flip: replicate_Suc)
    then show ?thesis by simp
  qed
  then have "scan hl (bs @ drop (length bs) (replicate (hl + 2) 0)) (length bs)
          (ReadResult None (Some NotEOF) # c) = ScanErr (bs @ [0]) c"
    using assms(1) by (simp add: scan_step_err)
  ultimately show ?thesis by simp
qed

text \<open>
  Reads that neither fail nor bring a line feed are passed over, whether they bring a
  byte or not.
\<close>

lemma scan_pass_eof:
  "length b = hl + 2 \<Longrightarrow> n + length pre < hl + 2 \<Longrightarrow>
   \<forall>r\<in>set pre. err r = None \<and> got r \<noteq> Some 0x0a \<Longrightarrow>
   scan hl b n (pre @ ReadResult g (Some EOF) # rest) = ScanEOF"
proof (induction pre arbitrary: b n)
  case Nil
  then show ?case by (simp add: scan_step_eof)
next
  case (Cons r pre)
  obtain g' where r: "r = ReadResult g' None" using Cons.prems(3) by (cases r) auto
  show ?case
  proof (cases g')
    case None
    then show ?thesis using Cons r by (simp add: scan_step_empty)
  next
    case (Some x)
    then have "x \<noteq> 0x0a" using Cons.prems(3) r by auto
    then show ?thesis using Cons Some r by (simp add: scan_step_data)
  qed
qed

lemma scan_pass_end:
  "length b = hl + 2 \<Longrightarrow> n + length pre < hl + 2 \<Longrightarrow>
   \<forall>r\<in>set pre. err r = None \<and> got r \<noteq> Some 0x0a \<Longrightarrow>
   scan hl b n pre = ScanEOF"
proof (induction pre arbitrary: b n)
  case Nil
  then show ?case by (simp add: scan_step_end)
next
  case (Cons r pre)
  obtain g' where r: "r = ReadResult g' None" using Cons.prems(3) by (cases r) auto
  show ?case
  proof (cases g')
    case None
    then show ?thesis using Cons r by (simp add: scan_step_empty)
  next
    case (Some x)
    then have "x \<noteq> 0x0a" using Cons.prems(3) r by auto
    then show ?thesis using Cons Some r by (simp add: scan_step_data)
  qed
qed


section \<open>Streams\<close>

lemma deliver_append: "deliver (xs @ ys) = deliver xs @ deliver ys"
  by (simp add: deliver_def)

lemma conn_bytes_deliver: "conn_bytes (deliver bs @ c) = bs @ conn_bytes c"
  by (induction bs) (simp_all add: deliver_def)

text \<open>
  One read of a rewound connection takes the first byte of what \<open>rewind_bytes\<close>
  promises and leaves the rest.
\<close>

lemma rewind_Read_bytes:
  "rewind_Read rc = (r, rc') \<Longrightarrow>
   rewind_bytes rc = (case got r of None \<Rightarrow> [] | Some x \<Rightarrow> [x]) @ rewind_bytes rc'"
  by (cases "prefix rc"; cases "under rc")
    (auto simp: rewind_Read_def rewind_bytes_def split: option.splits)

lemma open_listener_open: "\<not> closed open_listener"
  by (simp add: open_listener_def NewListener_def)

section \<open>The claims\<close>

subsection \<open>C1: what the fallback path replays\<close>

text \<open>
  Claim C1, as the code has it. Take a connection whose header reads each hand over one
  byte, and a listener that has not been closed. If the bytes \<open>p\<close> are followed by
  a line feed at position \<open>length p < hl + 1\<close>, the unit sends one rewound connection
  whose prefix is \<open>p\<close> with the line feed, \<open>length p + 1\<close> bytes, over the rest of
  the connection. If \<open>hl + 2\<close> bytes arrive with no early line feed and the first
  \<open>hl\<close> are not a key, it sends one rewound connection whose prefix is those
  \<open>hl + 2\<close> bytes. Either way the consumer of the rewound connection observes the
  bytes of the original connection, none lost and none repeated.
\<close>

theorem fallback_replays_consumed_bytes:
  "(length p < hl + 1 \<and> 0x0a \<notin> set p \<and> \<not> closed l \<longrightarrow>
      loop_conn hl V H l (deliver (p @ [0x0a]) @ rest) = [Send (RewindConn rest (p @ [0x0a]))]
      \<and> length (prefix (RewindConn rest (p @ [0x0a]))) = length p + 1
      \<and> rewind_bytes (RewindConn rest (p @ [0x0a])) = conn_bytes (deliver (p @ [0x0a]) @ rest))
   \<and> (length bs = hl + 2 \<and> 0x0a \<notin> set (take (hl + 1) bs) \<and> \<not> V (take hl bs) \<and> \<not> closed l \<longrightarrow>
      loop_conn hl V H l (deliver bs @ rest) = [Send (RewindConn rest bs)]
      \<and> rewind_bytes (RewindConn rest bs) = conn_bytes (deliver bs @ rest))"
proof -
  have "loop_conn hl V H l (deliver (p @ [0x0a]) @ rest) = [Send (RewindConn rest (p @ [0x0a]))]"
    if "length p < hl + 1" "0x0a \<notin> set p" "\<not> closed l"
    using that scan_deliver_lf [of p hl rest] by (simp add: loop_conn_def close_or_send_def)
  moreover have "loop_conn hl V H l (deliver bs @ rest) = [Send (RewindConn rest bs)]"
    if "length bs = hl + 2" "0x0a \<notin> set (take (hl + 1) bs)" "\<not> V (take hl bs)" "\<not> closed l"
    using that scan_deliver_full [of bs hl rest] by (simp add: loop_conn_def close_or_send_def)
  moreover have "rewind_bytes (RewindConn c q) = conn_bytes (deliver q @ c)" for c q
    by (simp add: RewindConn_def rewind_bytes_def conn_bytes_deliver)
  moreover have "length (prefix (RewindConn rest (p @ [0x0a]))) = length p + 1"
    by (simp add: RewindConn_def)
  ultimately show ?thesis by blast
qed

text \<open>
  The theorem at an HTTP request line cut by a line feed at position 5, and at 58 bytes
  that are no key.
\<close>

theorem fallback_replays_consumed_bytes_witness:
  "loop_conn HeaderLen reject_all relay_ok open_listener (deliver (http_get @ [0x0a]) @ deliver [0x48]) =
     [Send (RewindConn (deliver [0x48]) (http_get @ [0x0a]))]
   \<and> length (prefix (RewindConn (deliver [0x48]) (http_get @ [0x0a]))) = 6
   \<and> rewind_bytes (RewindConn (deliver [0x48]) (http_get @ [0x0a])) =
     conn_bytes (deliver (http_get @ [0x0a]) @ deliver [0x48])
   \<and> loop_conn HeaderLen reject_all relay_ok open_listener (deliver tls_hello @ deliver [0x03]) =
     [Send (RewindConn (deliver [0x03]) tls_hello)]
   \<and> rewind_bytes (RewindConn (deliver [0x03]) tls_hello) =
     conn_bytes (deliver tls_hello @ deliver [0x03])"
proof -
  have a: "length http_get < HeaderLen + 1 \<and> 0x0a \<notin> set http_get \<and> \<not> closed open_listener"
    by (simp add: http_get_def HeaderLen_def open_listener_open)
  have b: "length tls_hello = HeaderLen + 2 \<and> 0x0a \<notin> set (take (HeaderLen + 1) tls_hello)
      \<and> \<not> reject_all (take HeaderLen tls_hello) \<and> \<not> closed open_listener"
    by (simp add: tls_hello_def HeaderLen_def open_listener_open reject_all_def)
  show ?thesis
    using a b
      fallback_replays_consumed_bytes [of http_get HeaderLen open_listener reject_all relay_ok
        "deliver [0x48]" tls_hello]
      fallback_replays_consumed_bytes [of http_get HeaderLen open_listener reject_all relay_ok
        "deliver [0x03]" tls_hello]
    by (simp add: http_get_def)
qed

text \<open>
  C1 as stated fails on two connections. Two bytes are read and the third read fails
  with an error that is not end-of-stream: the prefix sent has three bytes, the last a
  zero that the connection never carried. The first read returns nothing and no error,
  the second a line feed: the prefix sent has two bytes, the first a zero, and the
  connection carried one.
\<close>

theorem fallback_replays_consumed_bytes_counterexample:
  "loop_conn HeaderLen reject_all relay_ok open_listener
     [ReadResult (Some 0x47) None, ReadResult (Some 0x45) None, ReadResult None (Some NotEOF)] =
     [Log ReadPrefixNotIO, Send (RewindConn [] [0x47, 0x45, 0])]
   \<and> conn_bytes [ReadResult (Some 0x47) None, ReadResult (Some 0x45) None,
        ReadResult None (Some NotEOF)] = [0x47, 0x45]
   \<and> rewind_bytes (RewindConn [] [0x47, 0x45, 0]) = [0x47, 0x45, 0]
   \<and> loop_conn HeaderLen reject_all relay_ok open_listener
     [ReadResult None None, ReadResult (Some 0x0a) None] = [Send (RewindConn [] [0, 0x0a])]
   \<and> conn_bytes [ReadResult None None, ReadResult (Some 0x0a) None] = [0x0a]
   \<and> rewind_bytes (RewindConn [] [0, 0x0a]) = [0, 0x0a]"
proof -
  have "scan HeaderLen (replicate (HeaderLen + 2) 0) 0
          (deliver [0x47, 0x45] @ ReadResult None (Some NotEOF) # []) = ScanErr ([0x47, 0x45] @ [0]) []"
    by (rule scan_deliver_err) (simp_all add: HeaderLen_def)
  then have 1: "loop_conn HeaderLen reject_all relay_ok open_listener
     [ReadResult (Some 0x47) None, ReadResult (Some 0x45) None, ReadResult None (Some NotEOF)] =
     [Log ReadPrefixNotIO, Send (RewindConn [] [0x47, 0x45, 0])]"
    by (simp add: loop_conn_def deliver_def)
  have "scan HeaderLen (replicate (HeaderLen + 2) 0) 0
          (ReadResult None None # ReadResult (Some 0x0a) None # []) =
        ScanLF (take 1 (replicate (HeaderLen + 2) 0) @ [0x0a]) []"
    by (simp add: scan_step_empty scan_step_lf HeaderLen_def)
  then have 2: "loop_conn HeaderLen reject_all relay_ok open_listener
     [ReadResult None None, ReadResult (Some 0x0a) None] = [Send (RewindConn [] [0, 0x0a])]"
    by (simp add: loop_conn_def close_or_send_def open_listener_open HeaderLen_def)
  show ?thesis using 1 2 by (simp add: rewind_bytes_def RewindConn_def)
qed

subsection \<open>C2: a valid key followed by something else than CR LF\<close>

text \<open>
  Claim C2, as the code has it. Every header read hands over one byte with no error.
  The scan never compares the two bytes after the key with CR LF. When the key \<open>k\<close>
  validates, holds no line feed, and the byte after it is not a line feed, the unit
  goes on to the relay whatever the two bytes \<open>x\<close> and \<open>y\<close> are: it calls the
  relay on the rest of the connection, logs an error only if the relay returns one,
  reports the counts under \<open>k\<close> and closes the connection; nothing is sent to the
  fallback queue. When the byte after the key is a line feed, the unit takes the
  fallback branch with the \<open>hl + 1\<close> bytes read, whether the key validates or not:
  it sends the rewound connection, or closes the raw connection when the listener has
  been closed.
\<close>

theorem valid_key_any_trailer_relays:
  "(length k = hl \<and> 0x0a \<notin> set k \<and> V k \<and> x \<noteq> 0x0a \<and> H rest = (nr, nw, e) \<longrightarrow>
      loop_conn hl V H l (deliver (k @ [x, y]) @ rest) =
        (if Verbose l then [Log HandleInfo] else []) @ [Handle rest] @
        (if e \<noteq> None then [Log HandleError] else []) @
        [Consume k nr nw, ConnClose]
      \<and> (\<forall>rc. Send rc \<notin> set (loop_conn hl V H l (deliver (k @ [x, y]) @ rest))))
   \<and> (length k = hl \<and> 0x0a \<notin> set k \<longrightarrow>
      loop_conn hl V H l (deliver (k @ [0x0a]) @ rest) =
        (if closed l then [ConnClose] else [Send (RewindConn rest (k @ [0x0a]))]))"
proof -
  have relayed: "loop_conn hl V H l (deliver (k @ [x, y]) @ rest) =
        (if Verbose l then [Log HandleInfo] else []) @ [Handle rest] @
        (if e \<noteq> None then [Log HandleError] else []) @
        [Consume k nr nw, ConnClose]"
    if "length k = hl" "0x0a \<notin> set k" "V k" "x \<noteq> 0x0a" "H rest = (nr, nw, e)"
    using that scan_deliver_full [of "k @ [x, y]" hl rest]
    by (simp add: loop_conn_def)
  have no_send: "Send rc \<notin> set ((if Verbose l then [Log HandleInfo] else []) @ [Handle rest] @
        (if e \<noteq> None then [Log HandleError] else []) @
        [Consume k nr nw, ConnClose])" for rc
    by simp
  have lf: "loop_conn hl V H l (deliver (k @ [0x0a]) @ rest) =
        (if closed l then [ConnClose] else [Send (RewindConn rest (k @ [0x0a]))])"
    if "length k = hl" "0x0a \<notin> set k"
    using that scan_deliver_lf [of k hl rest]
    by (simp add: loop_conn_def close_or_send_def)
  show ?thesis
    using relayed no_send lf by (metis (no_types, lifting))
qed

text \<open>
  The theorem at the key followed by the letters A and B, with a relay that fails, and
  at the key followed by a line feed, on an open and on a closed listener.
\<close>

theorem valid_key_any_trailer_relays_witness:
  "loop_conn HeaderLen only_demo_key relay_fail open_listener
     (deliver (demo_key @ [0x41, 0x42]) @ deliver [0x01]) =
     [Handle (deliver [0x01]), Log HandleError, Consume demo_key 0 0, ConnClose]
   \<and> loop_conn HeaderLen only_demo_key relay_fail open_listener
     (deliver (demo_key @ [0x0a]) @ deliver [0x01]) =
     [Send (RewindConn (deliver [0x01]) (demo_key @ [0x0a]))]
   \<and> loop_conn HeaderLen only_demo_key relay_fail closed_listener
     (deliver (demo_key @ [0x0a]) @ deliver [0x01]) = [ConnClose]"
proof -
  have h: "length demo_key = HeaderLen \<and> 0x0a \<notin> set demo_key \<and> only_demo_key demo_key
     \<and> (0x41::byte) \<noteq> 0x0a \<and> relay_fail (deliver [0x01]) = (0, 0, Some ''decode'')"
    by (simp add: demo_key_def HeaderLen_def only_demo_key_def relay_fail_def)
  have c: "closed closed_listener" "\<not> closed open_listener" "\<not> Verbose open_listener"
    by (simp_all add: closed_listener_def Close_def open_listener_def NewListener_def)
  show ?thesis
    using h c
      valid_key_any_trailer_relays [where V = only_demo_key and H = relay_fail and k = demo_key and hl = HeaderLen
        and l = open_listener and x = "0x41" and y = "0x42" and rest = "deliver [0x01]"
        and nr = 0 and nw = 0 and e = "Some ''decode''"]
      valid_key_any_trailer_relays [where V = only_demo_key and H = relay_fail and k = demo_key and hl = HeaderLen
        and l = closed_listener and x = "0x41" and y = "0x42" and rest = "deliver [0x01]"
        and nr = 0 and nw = 0 and e = "Some ''decode''"]
    by simp
qed

text \<open>
  C2 as stated fails on two connections, both opening with a valid key followed by
  something else than CR LF. With a line feed right after the key, position
  \<open>HeaderLen\<close> is still below \<open>HeaderLen + 1\<close>, so the scan leaves through the
  line-feed branch and the connection is sent to the fallback queue. With the letters
  A and B after the key and a well-formed request behind them, the relay, which reads
  only what follows the two bytes, returns no error: nothing is logged and the
  connection is relayed as if CR LF had been there.
\<close>

theorem valid_key_any_trailer_relays_counterexample:
  "only_demo_key (take HeaderLen (demo_key @ [0x0a, 0x0d]))
   \<and> loop_conn HeaderLen only_demo_key relay_ok open_listener (deliver (demo_key @ [0x0a, 0x0d])) =
     [Send (RewindConn (deliver [0x0d]) (demo_key @ [0x0a]))]
   \<and> only_demo_key (take HeaderLen (demo_key @ [0x41, 0x42]))
   \<and> loop_conn HeaderLen only_demo_key relay_ok open_listener
       (deliver (demo_key @ [0x41, 0x42]) @ deliver connect_request) =
     [Handle (deliver connect_request), Consume demo_key 10 20, ConnClose]"
proof -
  have "scan HeaderLen (replicate (HeaderLen + 2) 0) 0 (deliver (demo_key @ [0x0a]) @ deliver [0x0d]) =
        ScanLF (demo_key @ [0x0a]) (deliver [0x0d])"
    by (rule scan_deliver_lf) (simp_all add: demo_key_def HeaderLen_def)
  moreover have "deliver (demo_key @ [0x0a, 0x0d]) = deliver (demo_key @ [0x0a]) @ deliver [0x0d]"
    by (simp add: deliver_def)
  ultimately have 1: "loop_conn HeaderLen only_demo_key relay_ok open_listener
      (deliver (demo_key @ [0x0a, 0x0d])) = [Send (RewindConn (deliver [0x0d]) (demo_key @ [0x0a]))]"
    by (simp add: loop_conn_def close_or_send_def open_listener_open)
  have "scan HeaderLen (replicate (HeaderLen + 2) 0) 0
          (deliver (demo_key @ [0x41, 0x42]) @ deliver connect_request) =
        ScanDone (demo_key @ [0x41, 0x42]) (deliver connect_request)"
    by (rule scan_deliver_full) (simp_all add: demo_key_def HeaderLen_def)
  then have 2: "loop_conn HeaderLen only_demo_key relay_ok open_listener
       (deliver (demo_key @ [0x41, 0x42]) @ deliver connect_request) =
     [Handle (deliver connect_request), Consume demo_key 10 20, ConnClose]"
    by (simp add: loop_conn_def only_demo_key_def demo_key_def HeaderLen_def relay_ok_def
        open_listener_def NewListener_def)
  have 3: "only_demo_key (take HeaderLen (demo_key @ [0x0a, 0x0d]))"
    "only_demo_key (take HeaderLen (demo_key @ [0x41, 0x42]))"
    by (simp_all add: only_demo_key_def demo_key_def HeaderLen_def)
  show ?thesis using 1 2 3 by simp
qed

subsection \<open>C3: a read that fails with an error other than end-of-stream\<close>

text \<open>
  Claim C3 says that the unit rewinds the \<open>n\<close> bytes read before the failing read.
  The code hands \<^verbatim>\<open>b[:n+1]\<close> to the rewound connection. When the failing read
  brought no byte, that is the \<open>n\<close> bytes read and one zero byte after them: for
  every run \<open>bs\<close> of fewer than \<open>hl + 2\<close> bytes without a line feed, followed by
  such a read, the prefix sent is \<open>bs @ [0]\<close>, one byte longer than what was
  read.
\<close>

theorem read_error_rewinds_one_more:
  assumes "length bs < hl + 2" "0x0a \<notin> set bs"
  shows "loop_conn hl V H l (deliver bs @ ReadResult None (Some NotEOF) # rest) =
           [Log ReadPrefixNotIO, Send (RewindConn rest (bs @ [0]))]
       \<and> length (prefix (RewindConn rest (bs @ [0]))) = length bs + 1"
  using scan_deliver_err [OF assms, of rest]
  by (simp add: loop_conn_def RewindConn_def)

text \<open>
  The theorem at one byte, the letter G, followed by the failing read.
\<close>

theorem read_error_rewinds_one_more_witness:
  "loop_conn HeaderLen reject_all relay_ok open_listener
     (deliver [0x47] @ [ReadResult None (Some NotEOF)]) =
     [Log ReadPrefixNotIO, Send (RewindConn [] [0x47, 0])]"
  using read_error_rewinds_one_more [of "[0x47]" HeaderLen reject_all relay_ok open_listener "[]"]
  by (simp add: HeaderLen_def)

subsection \<open>C4: a key that the ledger does not hold\<close>

text \<open>
  Claim C4, as the code has it. A connection hands over \<open>hl + 2\<close> bytes \<open>bs\<close>,
  one with every read and with no read error, there is no line feed among the first
  \<open>hl + 1\<close>, and the first \<open>hl\<close> bytes are not a key of the ledger. Then the unit
  takes the fallback branch with all \<open>hl + 2\<close> bytes as the prefix: it sends the
  rewound connection, or closes the raw connection when the listener has been closed.
  The rewound connection carries the bytes of the original connection unchanged.
\<close>

theorem unknown_key_falls_back:
  assumes "length bs = hl + 2"
    and "0x0a \<notin> set (take (hl + 1) bs)"
    and "\<not> V (take hl bs)"
  shows "loop_conn hl V H l (deliver bs @ rest) =
           (if closed l then [ConnClose] else [Send (RewindConn rest bs)])
       \<and> length (prefix (RewindConn rest bs)) = hl + 2
       \<and> rewind_bytes (RewindConn rest bs) = conn_bytes (deliver bs @ rest)"
  using assms scan_deliver_full [of bs hl rest]
  by (simp add: loop_conn_def close_or_send_def RewindConn_def rewind_bytes_def conn_bytes_deliver)

text \<open>
  The theorem at 58 bytes that are not the key, on an open and on a closed listener.
\<close>

theorem unknown_key_falls_back_witness:
  "loop_conn HeaderLen only_demo_key relay_ok open_listener (deliver tls_hello @ deliver [0x03]) =
     [Send (RewindConn (deliver [0x03]) tls_hello)]
   \<and> loop_conn HeaderLen only_demo_key relay_ok closed_listener (deliver tls_hello @ deliver [0x03]) =
     [ConnClose]
   \<and> length (prefix (RewindConn (deliver [0x03]) tls_hello)) = 58
   \<and> rewind_bytes (RewindConn (deliver [0x03]) tls_hello) = conn_bytes (deliver tls_hello @ deliver [0x03])"
proof -
  have h: "length tls_hello = HeaderLen + 2" "0x0a \<notin> set (take (HeaderLen + 1) tls_hello)"
    "\<not> only_demo_key (take HeaderLen tls_hello)"
    by (simp_all add: tls_hello_def HeaderLen_def only_demo_key_def demo_key_def)
  have c: "closed closed_listener"
    by (simp add: closed_listener_def Close_def open_listener_open)
  show ?thesis
    using unknown_key_falls_back [where V = only_demo_key and H = relay_ok
        and l = open_listener and rest = "deliver [0x03]", OF h]
      unknown_key_falls_back [where V = only_demo_key and H = relay_ok
        and l = closed_listener and rest = "deliver [0x03]", OF h]
      c open_listener_open
    by (simp add: HeaderLen_def)
qed

text \<open>
  C4 as stated fails when a header read returns nothing and no error. The first read
  brings no byte, the next 58 bring the byte 0x16 each: there is no early line feed and
  no read error, and the first 56 bytes of the connection are not the key. The prefix
  sent is a zero followed by 57 of the bytes, so the consumer observes 59 bytes where
  the connection carried 58.
\<close>

theorem unknown_key_falls_back_counterexample:
  "\<not> only_demo_key (take HeaderLen (conn_bytes (ReadResult None None # deliver tls_hello)))
   \<and> loop_conn HeaderLen only_demo_key relay_ok open_listener
       (ReadResult None None # deliver tls_hello) =
     [Send (RewindConn (deliver [0x16]) (0 # replicate 57 0x16))]
   \<and> rewind_bytes (RewindConn (deliver [0x16]) (0 # replicate 57 0x16)) = 0 # tls_hello
   \<and> conn_bytes (ReadResult None None # deliver tls_hello) = tls_hello"
proof -
  have t: "tls_hello = replicate 57 0x16 @ [0x16]"
    using replicate_add [of 57 1 "0x16::byte"] by (simp add: tls_hello_def)
  have "scan HeaderLen (replicate (HeaderLen + 2) 0) 0 (ReadResult None None # deliver tls_hello) =
        scan HeaderLen ([0] @ replicate 57 0) (length [0::byte]) (deliver (replicate 57 0x16) @ deliver [0x16])"
  proof -
    have "replicate 58 (0::byte) = 0 # replicate 57 0"
      using replicate_Suc [of 57 "0::byte"] by simp
    then show ?thesis
      by (simp add: scan_step_empty HeaderLen_def t deliver_append)
  qed
  also have "\<dots> = scan HeaderLen ([0] @ replicate 57 0x16 @ drop (length (replicate 57 (0x16::byte))) (replicate 57 0))
        (length [0::byte] + length (replicate 57 (0x16::byte))) (deliver [0x16])"
    by (rule scan_deliver) (simp_all add: HeaderLen_def)
  also have "\<dots> = ScanDone (0 # replicate 57 0x16) (deliver [0x16])"
    by (simp add: scan_done HeaderLen_def)
  finally have s: "scan HeaderLen (replicate (HeaderLen + 2) 0) 0
        (ReadResult None None # deliver tls_hello) =
      ScanDone (0 # replicate 57 0x16) (deliver [0x16])" .
  have ne: "\<not> only_demo_key (take HeaderLen (0 # replicate 57 0x16))"
    using replicate_Suc [of 55 "0x61::byte"]
    by (simp add: only_demo_key_def demo_key_def HeaderLen_def)
  have "loop_conn HeaderLen only_demo_key relay_ok open_listener
       (ReadResult None None # deliver tls_hello) =
     [Send (RewindConn (deliver [0x16]) (0 # replicate 57 0x16))]"
    by (simp only: loop_conn_def s scan_result.case ne close_or_send_def
        open_listener_open) simp
  moreover have "conn_bytes (ReadResult None None # deliver tls_hello) = tls_hello"
    using conn_bytes_deliver [of tls_hello "[]"] by simp
  moreover have "\<not> only_demo_key (take HeaderLen tls_hello)"
    by (simp add: only_demo_key_def demo_key_def HeaderLen_def tls_hello_def)
  moreover have "rewind_bytes (RewindConn (deliver [0x16]) (0 # replicate 57 0x16)) = 0 # tls_hello"
    by (simp add: rewind_bytes_def RewindConn_def deliver_def t)
  ultimately show ?thesis by simp
qed

subsection \<open>C5: after the key has validated\<close>

text \<open>
  Claim C5. When the scan runs to its end with buffer \<open>b\<close> and the first \<open>hl\<close>
  bytes of \<open>b\<close> validate, the unit calls the relay on the rest of the connection and,
  whether the relay returned an error or not, reports the two counts it returned under
  that key and then closes the connection. An error of the relay is logged. No
  connection is sent to the fallback queue.
\<close>

theorem valid_key_relays:
  assumes "scan hl (replicate (hl + 2) 0) 0 c = ScanDone b c'"
    and "V (take hl b)"
    and "H c' = (nr, nw, e)"
  shows "loop_conn hl V H l c =
           (if Verbose l then [Log HandleInfo] else []) @ [Handle c'] @
           (if e \<noteq> None then [Log HandleError] else []) @
           [Consume (take hl b) nr nw, ConnClose]
       \<and> (\<forall>rc. Send rc \<notin> set (loop_conn hl V H l c))"
  using assms by (simp add: loop_conn_def)

text \<open>
  The theorem at the key followed by CR LF, once with a relay that succeeds and once,
  on a verbose listener, with a relay that fails.
\<close>

theorem valid_key_relays_witness:
  "loop_conn HeaderLen only_demo_key relay_ok open_listener
     (deliver (demo_key @ [0x0d, 0x0a]) @ deliver [0x01]) =
     [Handle (deliver [0x01]), Consume demo_key 10 20, ConnClose]
   \<and> loop_conn HeaderLen only_demo_key relay_fail (open_listener\<lparr>Verbose := True\<rparr>)
     (deliver (demo_key @ [0x0d, 0x0a]) @ deliver [0x01]) =
     [Log HandleInfo, Handle (deliver [0x01]), Log HandleError, Consume demo_key 0 0, ConnClose]"
proof -
  have s: "scan HeaderLen (replicate (HeaderLen + 2) 0) 0
            (deliver (demo_key @ [0x0d, 0x0a]) @ deliver [0x01]) =
           ScanDone (demo_key @ [0x0d, 0x0a]) (deliver [0x01])"
    by (rule scan_deliver_full) (simp_all add: demo_key_def HeaderLen_def)
  have v: "only_demo_key (take HeaderLen (demo_key @ [0x0d, 0x0a]))"
    by (simp add: only_demo_key_def demo_key_def HeaderLen_def)
  have r1: "relay_ok (deliver [0x01]) = (10, 20, None)" by (simp add: relay_ok_def)
  have r2: "relay_fail (deliver [0x01]) = (0, 0, Some ''decode'')" by (simp add: relay_fail_def)
  show ?thesis
    using valid_key_relays [where V = only_demo_key and H = relay_ok
        and l = open_listener, OF s v r1]
      valid_key_relays [where V = only_demo_key and H = relay_fail
        and l = "open_listener\<lparr>Verbose := True\<rparr>", OF s v r2]
    by (simp add: open_listener_def NewListener_def demo_key_def HeaderLen_def)
qed

subsection \<open>C6: end-of-stream during the header\<close>

text \<open>
  Claim C6. The reads \<open>pre\<close>, fewer than \<open>hl + 2\<close>, neither fail nor bring a
  line feed, and the next read fails with end-of-stream, either because the connection
  says so or because the peer has closed it. Then the unit logs, closes the raw
  connection and sends nothing.
\<close>

theorem eof_abandons:
  assumes "length pre < hl + 2"
    and "\<forall>r\<in>set pre. err r = None \<and> got r \<noteq> Some 0x0a"
  shows "loop_conn hl V H l (pre @ ReadResult g (Some EOF) # rest) = [Log ReadPrefixEOF, ConnClose]
       \<and> loop_conn hl V H l pre = [Log ReadPrefixEOF, ConnClose]"
  using assms scan_pass_eof [of "replicate (hl + 2) 0" hl 0 pre g rest]
    scan_pass_end [of "replicate (hl + 2) 0" hl 0 pre]
  by (simp add: loop_conn_def)

text \<open>
  The theorem at five bytes of a request line followed by end-of-stream.
\<close>

theorem eof_abandons_witness:
  "loop_conn HeaderLen reject_all relay_ok open_listener
     (deliver http_get @ [ReadResult None (Some EOF)]) = [Log ReadPrefixEOF, ConnClose]
   \<and> loop_conn HeaderLen reject_all relay_ok open_listener (deliver http_get) =
     [Log ReadPrefixEOF, ConnClose]"
proof -
  have "length (deliver http_get) < HeaderLen + 2"
    "\<forall>r\<in>set (deliver http_get). err r = None \<and> got r \<noteq> Some 0x0a"
    by (simp_all add: deliver_def http_get_def HeaderLen_def)
  from eof_abandons [where V = reject_all and H = relay_ok and l = open_listener
      and g = None and rest = "[]", OF this]
  show ?thesis by simp
qed

subsection \<open>C7: the close signal and the fallback queue\<close>

text \<open>
  Claim C7 says that no connection is sent to the queue once the listener has been
  closed. The line-feed branch and the unknown-key branch look at the close signal
  first; the branch of a failed read does not. On a closed listener, a connection whose
  first read fails with an error other than end-of-stream is sent to the queue all the
  same.
\<close>

theorem read_error_sends_after_close:
  "loop_conn hl V H (l\<lparr>closed := True\<rparr>) (ReadResult None (Some NotEOF) # rest) =
     [Log ReadPrefixNotIO, Send (RewindConn rest [0])]"
  using scan_deliver_err [of "[]" hl rest]
  by (simp add: loop_conn_def deliver_def)

subsection \<open>C8: Close twice, Accept after Close\<close>

text \<open>
  Claim C8, as the code has it. \<^verbatim>\<open>Close\<close> returns no error, a second call
  returns no error either and changes nothing, and the listener is closed afterwards.
  On a closed listener \<^verbatim>\<open>Accept\<close> never blocks and the closed error is always
  one of its possible results; it is the only one when the queue is empty. A call that
  was blocked, queue empty and listener open, returns the closed error once the
  listener is closed.
\<close>

theorem Close_idempotent_Accept_closed:
  "fst (Close l) = None \<and> fst (Close (snd (Close l))) = None
   \<and> snd (Close (snd (Close l))) = snd (Close l)
   \<and> closed (snd (Close l))
   \<and> (closed l \<longrightarrow> Accept l \<noteq> [] \<and> (ErrClosed, l) \<in> set (Accept l))
   \<and> (closed l \<and> conns l = [] \<longrightarrow> Accept l = [(ErrClosed, l)])
   \<and> (Accept l = [] \<longrightarrow> Accept (snd (Close l)) = [(ErrClosed, snd (Close l))])"
proof -
  have twice: "fst (Close l) = None" "fst (Close (snd (Close l))) = None"
    "snd (Close (snd (Close l))) = snd (Close l)" "closed (snd (Close l))"
    by (simp_all add: Close_def)
  have may: "Accept l \<noteq> [] \<and> (ErrClosed, l) \<in> set (Accept l)" if "closed l"
    using that by (simp add: Accept_def)
  have must: "Accept l = [(ErrClosed, l)]" if "closed l" "conns l = []"
    using that by (simp add: Accept_def)
  have woken: "Accept (snd (Close l)) = [(ErrClosed, snd (Close l))]" if "Accept l = []"
  proof -
    from that have "\<not> closed l" "conns l = []"
      by (auto simp: Accept_def split: if_splits list.splits)
    then show ?thesis by (simp add: Accept_def Close_def)
  qed
  from twice may must woken show ?thesis by blast
qed

text \<open>
  The theorem at a fresh listener and at the same listener after one
  \<^verbatim>\<open>Close\<close>.
\<close>

theorem Close_idempotent_Accept_closed_witness:
  "closed closed_listener \<and> conns closed_listener = []
   \<and> Accept closed_listener = [(ErrClosed, closed_listener)]
   \<and> Accept open_listener = []
   \<and> Accept (snd (Close open_listener)) = [(ErrClosed, snd (Close open_listener))]
   \<and> snd (Close closed_listener) = closed_listener"
proof -
  have c: "closed closed_listener" "conns closed_listener = []"
    by (simp_all add: closed_listener_def Close_def open_listener_def NewListener_def)
  have o: "Accept open_listener = []"
    by (simp add: Accept_def open_listener_def NewListener_def)
  show ?thesis
    using c o Close_idempotent_Accept_closed [of closed_listener]
      Close_idempotent_Accept_closed [of open_listener]
    by (simp add: closed_listener_def)
qed

text \<open>
  C8 as stated fails when a connection is still queued: a unit sends a rewound
  connection on the fresh listener, the listener is closed, and both cases of the
  \<^verbatim>\<open>select\<close> in \<^verbatim>\<open>Accept\<close> can proceed, so the call may return the
  queued connection.
\<close>

theorem Close_idempotent_Accept_closed_counterexample:
  "chan_send demo_rc open_listener = Some queued_listener
   \<and> closed (snd (Close queued_listener))
   \<and> (Conn demo_rc, (snd (Close queued_listener))\<lparr>conns := []\<rparr>) \<in> set (Accept (snd (Close queued_listener)))"
  by (simp add: chan_send_def queued_listener_def open_listener_def NewListener_def conns_cap_def
      Close_def Accept_def)

subsection \<open>C9: what Close touches\<close>

text \<open>
  Claim C9. \<^verbatim>\<open>Close\<close> returns no error and changes nothing but the close signal
  of the wrapper: the wrapped \<^verbatim>\<open>net.Listener\<close>, the queue and the verbosity are
  as they were.
\<close>

theorem Close_frame:
  "fst (Close l) = None \<and> snd (Close l) = l\<lparr>closed := True\<rparr>
   \<and> netListener (snd (Close l)) = netListener l
   \<and> conns (snd (Close l)) = conns l \<and> Verbose (snd (Close l)) = Verbose l"
  by (simp add: Close_def)

subsection \<open>C10: a read of zero bytes with no error\<close>



end
